theory Spec2Isabelle
  imports Complex_Main "HOL-Library.Char_ord" "HOL-Library.List_Lexorder" "HOL-Library.Multiset"
begin

section \<open>Python values handled by the parameter store\<close>

text \<open>
  The values that reach \<^verbatim>\<open>ParameterManager\<close> are the literals a \<^verbatim>\<open>PARAMETERS\<close> entry
  can hold: \<^verbatim>\<open>None\<close>, booleans, integers, floats, strings and the four type objects
  \<^verbatim>\<open>float\<close>, \<^verbatim>\<open>int\<close>, \<^verbatim>\<open>bool\<close>, \<^verbatim>\<open>str\<close>. Python integers are unbounded. A finite
  float is the rational number it denotes (comparison of Python numbers is exact), next to
  the two infinities and NaN; \<^verbatim>\<open>-0.0\<close> and \<^verbatim>\<open>0.0\<close>, which Python's \<^verbatim>\<open>==\<close> identifies, are
  one value here.
\<close>

datatype pytype = TFloat | TInt | TBool | TStr

datatype pyfloat = Fin rat | PosInf | NegInf | NaN

datatype pyval =
    PNone
  | PBool bool
  | PInt int
  | PFloat pyfloat
  | PStr string
  | PType pytype

datatype error = TypeError | KeyError | SyntaxError

text \<open>The number a value denotes in a comparison: \<^verbatim>\<open>bool\<close> is a subclass of \<^verbatim>\<open>int\<close>.\<close>

fun as_number :: "pyval \<Rightarrow> pyfloat option" where
  "as_number (PBool b) = Some (Fin (if b then 1 else 0))"
| "as_number (PInt i) = Some (Fin (of_int i))"
| "as_number (PFloat f) = Some f"
| "as_number PNone = None"
| "as_number (PStr s) = None"
| "as_number (PType t) = None"

fun num_eq :: "pyfloat \<Rightarrow> pyfloat \<Rightarrow> bool" where
  "num_eq (Fin a) (Fin b) = (a = b)"
| "num_eq PosInf PosInf = True"
| "num_eq NegInf NegInf = True"
| "num_eq _ _ = False"

fun num_lt :: "pyfloat \<Rightarrow> pyfloat \<Rightarrow> bool" where
  "num_lt (Fin a) (Fin b) = (a < b)"
| "num_lt NegInf (Fin b) = True"
| "num_lt NegInf PosInf = True"
| "num_lt (Fin a) PosInf = True"
| "num_lt _ _ = False"

text \<open>Python's \<^verbatim>\<open>a == b\<close>: numeric across \<^verbatim>\<open>bool\<close>, \<^verbatim>\<open>int\<close> and \<^verbatim>\<open>float\<close> (NaN equals
  nothing), structural on the other kinds, false across kinds.\<close>

definition py_eq :: "pyval \<Rightarrow> pyval \<Rightarrow> bool" where
  "py_eq a b =
     (case (as_number a, as_number b) of
        (Some x, Some y) \<Rightarrow> num_eq x y
      | (None, None) \<Rightarrow> a = b
      | _ \<Rightarrow> False)"

text \<open>Python's \<^verbatim>\<open>a < b\<close> and \<^verbatim>\<open>a > b\<close>: defined between numbers and between strings
  (by code point, lexicographically); every other pairing raises \<^verbatim>\<open>TypeError\<close>.\<close>

definition py_lt :: "pyval \<Rightarrow> pyval \<Rightarrow> error + bool" where
  "py_lt a b =
     (case (as_number a, as_number b) of
        (Some x, Some y) \<Rightarrow> Inr (num_lt x y)
      | _ \<Rightarrow> (case (a, b) of
                 (PStr s, PStr t) \<Rightarrow> Inr (s < t)
               | _ \<Rightarrow> Inl TypeError))"

definition py_gt :: "pyval \<Rightarrow> pyval \<Rightarrow> error + bool" where
  "py_gt a b =
     (case (as_number a, as_number b) of
        (Some x, Some y) \<Rightarrow> Inr (num_lt y x)
      | _ \<Rightarrow> (case (a, b) of
                 (PStr s, PStr t) \<Rightarrow> Inr (t < s)
               | _ \<Rightarrow> Inl TypeError))"

text \<open>\<^verbatim>\<open>isinstance(value, bool)\<close>, \<^verbatim>\<open>isinstance(value, int)\<close>,
  \<^verbatim>\<open>isinstance(value, (int, float))\<close> and \<^verbatim>\<open>isinstance(value, str)\<close>.\<close>

fun isinstance_bool :: "pyval \<Rightarrow> bool" where
  "isinstance_bool (PBool b) = True"
| "isinstance_bool _ = False"

fun isinstance_int :: "pyval \<Rightarrow> bool" where
  "isinstance_int (PInt i) = True"
| "isinstance_int (PBool b) = True"
| "isinstance_int _ = False"

fun isinstance_int_float :: "pyval \<Rightarrow> bool" where
  "isinstance_int_float (PInt i) = True"
| "isinstance_int_float (PBool b) = True"
| "isinstance_int_float (PFloat f) = True"
| "isinstance_int_float _ = False"

fun isinstance_str :: "pyval \<Rightarrow> bool" where
  "isinstance_str (PStr s) = True"
| "isinstance_str _ = False"


section \<open>The parameter store (param\_manager.py)\<close>

text \<open>
  A parameter's metadata is a Python dictionary from keys (\<^verbatim>\<open>"value"\<close>, \<^verbatim>\<open>"type"\<close>,
  \<^verbatim>\<open>"min"\<close>, \<^verbatim>\<open>"max"\<close>, \<^verbatim>\<open>"unit"\<close>, \<^verbatim>\<open>"description"\<close>) to values. An entry of the
  \<^verbatim>\<open>parameters\<close> dictionary that is not such a dictionary never enters
  \<^verbatim>\<open>current_values\<close> and is never read afterwards, since every access is guarded by
  membership in \<^verbatim>\<open>current_values\<close> or comes from a change record; the model keeps the
  dictionary entries.

  A \<^verbatim>\<open>ParameterChange\<close> also carries the wall-clock time of its creation, which no code
  reads; it is left out. The undo and redo stacks are Python lists whose last element is
  the top. The effects on the outside world are recorded, in order, in \<open>effects\<close>: a
  patch of the script file (\<^verbatim>\<open>_update_file\<close>, which catches its own exceptions), a
  notification of the change listeners and one of the file-modified listeners (both catch
  the listeners' exceptions; listeners are taken not to call back into the store).
\<close>

type_synonym param_data = "string \<rightharpoonup> pyval"

datatype change = ParameterChange (param_name: string) (old_value: pyval) (new_value: pyval)

datatype event =
    UpdateFile string pyval
  | NotifyChange string pyval pyval
  | NotifyFileModified

record store =
  parameters :: "string \<rightharpoonup> param_data"
  current_values :: "string \<rightharpoonup> pyval"
  undo_stack :: "change list list"
  redo_stack :: "change list list"
  is_modified :: bool
  effects :: "event list"

text \<open>\<^verbatim>\<open>__init__\<close> with \<^verbatim>\<open>_initialize_current_values\<close>: the current value of a
  parameter is the \<^verbatim>\<open>"value"\<close> of its metadata, for the entries that have one.\<close>

definition ParameterManager :: "(string \<rightharpoonup> param_data) \<Rightarrow> store" where
  "ParameterManager params =
     \<lparr> parameters = params,
       current_values = (\<lambda>name. case params name of None \<Rightarrow> None | Some pd \<Rightarrow> pd ''value''),
       undo_stack = [],
       redo_stack = [],
       is_modified = False,
       effects = [] \<rparr>"


definition validate_type :: "store \<Rightarrow> string \<Rightarrow> pyval \<Rightarrow> bool" where
  "validate_type s name v =
     (case parameters s name of
        None \<Rightarrow> False
      | Some pd \<Rightarrow>
          (case pd ''type'' of
             None \<Rightarrow> True
           | Some expected_type \<Rightarrow>
               if expected_type = PType TFloat then isinstance_int_float v \<and> \<not> isinstance_bool v
               else if expected_type = PType TInt then isinstance_int v \<and> \<not> isinstance_bool v
               else if expected_type = PType TBool then isinstance_bool v
               else if expected_type = PType TStr then isinstance_str v
               else True))"

definition validate_bounds :: "store \<Rightarrow> string \<Rightarrow> pyval \<Rightarrow> error + bool" where
  "validate_bounds s name v =
     (let pd = (case parameters s name of None \<Rightarrow> Map.empty | Some d \<Rightarrow> d);
          below = (case pd ''min'' of None \<Rightarrow> Inr False | Some m \<Rightarrow> py_lt v m)
      in case below of
           Inl e \<Rightarrow> Inl e
         | Inr True \<Rightarrow> Inr False
         | Inr False \<Rightarrow>
             (case (case pd ''max'' of None \<Rightarrow> Inr False | Some m \<Rightarrow> py_gt v m) of
                Inl e \<Rightarrow> Inl e
              | Inr True \<Rightarrow> Inr False
              | Inr False \<Rightarrow> Inr True))"

text \<open>\<^verbatim>\<open>self.parameters[name]["value"] = v\<close>; a missing name raises \<^verbatim>\<open>KeyError\<close>.\<close>

definition set_value :: "(string \<rightharpoonup> param_data) \<Rightarrow> string \<Rightarrow> pyval \<Rightarrow> error + (string \<rightharpoonup> param_data)" where
  "set_value ps name v =
     (case ps name of
        None \<Rightarrow> Inl KeyError
      | Some pd \<Rightarrow> Inr (ps(name \<mapsto> pd(''value'' \<mapsto> v))))"

definition set_parameter :: "store \<Rightarrow> string \<Rightarrow> pyval \<Rightarrow> error + (bool \<times> store)" where
  "set_parameter s name v =
     (case current_values s name of
        None \<Rightarrow> Inr (False, s)
      | Some old \<Rightarrow>
          if py_eq old v then Inr (False, s)
          else if \<not> validate_type s name v then Inr (False, s)
          else (case validate_bounds s name v of
                  Inl e \<Rightarrow> Inl e
                | Inr False \<Rightarrow> Inr (False, s)
                | Inr True \<Rightarrow>
                    (case set_value (parameters s) name v of
                       Inl e \<Rightarrow> Inl e
                     | Inr ps \<Rightarrow>
                         Inr (True,
                           s\<lparr> current_values := (current_values s)(name \<mapsto> v),
                              parameters := ps,
                              undo_stack := undo_stack s @ [[ParameterChange name old v]],
                              redo_stack := [],
                              effects := effects s @ [UpdateFile name v, NotifyChange name old v,
                                              NotifyFileModified],
                              is_modified := True \<rparr>))))"

text \<open>\<^verbatim>\<open>set_parameters_batch\<close>: the first loop fills \<^verbatim>\<open>results\<close> and changes nothing
  else; an exception of a bounds comparison leaves it. \<^verbatim>\<open>updates\<close> is a Python
  dictionary, given as the list of its items in order.\<close>

fun validate_all :: "store \<Rightarrow> (string \<times> pyval) list \<Rightarrow> (string \<rightharpoonup> bool) \<Rightarrow> error + (string \<rightharpoonup> bool)" where
  "validate_all s [] results = Inr results"
| "validate_all s ((name, v) # updates) results =
     (if current_values s name = None then validate_all s updates (results(name \<mapsto> False))
      else if \<not> validate_type s name v then validate_all s updates (results(name \<mapsto> False))
      else (case validate_bounds s name v of
              Inl e \<Rightarrow> Inl e
            | Inr False \<Rightarrow> validate_all s updates (results(name \<mapsto> False))
            | Inr True \<Rightarrow> validate_all s updates (results(name \<mapsto> True))))"

text \<open>The second loop, over the same items: the store and the local list \<^verbatim>\<open>changes\<close>.\<close>

fun apply_all :: "(string \<rightharpoonup> bool) \<Rightarrow> (string \<times> pyval) list \<Rightarrow> store \<Rightarrow> change list \<Rightarrow> error + (store \<times> change list)" where
  "apply_all results [] s changes = Inr (s, changes)"
| "apply_all results ((name, v) # updates) s changes =
     (case results name of
        None \<Rightarrow> Inl KeyError
      | Some False \<Rightarrow> apply_all results updates s changes
      | Some True \<Rightarrow>
          (case current_values s name of
             None \<Rightarrow> Inl KeyError
           | Some old \<Rightarrow>
               (case set_value (parameters s) name v of
                  Inl e \<Rightarrow> Inl e
                | Inr ps \<Rightarrow>
                    apply_all results updates
                      (s\<lparr> current_values := (current_values s)(name \<mapsto> v),
                          parameters := ps,
                          effects := effects s @ [UpdateFile name v, NotifyChange name old v] \<rparr>)
                      (changes @ [ParameterChange name old v]))))"

definition set_parameters_batch :: "store \<Rightarrow> (string \<times> pyval) list \<Rightarrow> error + ((string \<rightharpoonup> bool) \<times> store)" where
  "set_parameters_batch s updates =
     (case validate_all s updates Map.empty of
        Inl e \<Rightarrow> Inl e
      | Inr results \<Rightarrow>
          (case apply_all results updates s [] of
             Inl e \<Rightarrow> Inl e
           | Inr (s', changes) \<Rightarrow>
               if changes \<noteq> [] then
                 Inr (results,
                   s'\<lparr> undo_stack := undo_stack s' @ [changes],
                       redo_stack := [],
                       is_modified := True,
                       effects := effects s' @ [NotifyFileModified] \<rparr>)
               else Inr (results, s')))"

text \<open>\<^verbatim>\<open>undo\<close> and \<^verbatim>\<open>redo\<close>: the loop over the popped batch, then the push on the other
  stack.\<close>

fun undo_changes :: "change list \<Rightarrow> store \<Rightarrow> error + store" where
  "undo_changes [] s = Inr s"
| "undo_changes (c # cs) s =
     (case set_value (parameters s) (param_name c) (old_value c) of
        Inl e \<Rightarrow> Inl e
      | Inr ps \<Rightarrow>
          undo_changes cs
            (s\<lparr> current_values := (current_values s)(param_name c \<mapsto> old_value c),
                parameters := ps,
                effects := effects s @ [UpdateFile (param_name c) (old_value c),
                                NotifyChange (param_name c) (new_value c) (old_value c)] \<rparr>))"

fun redo_changes :: "change list \<Rightarrow> store \<Rightarrow> error + store" where
  "redo_changes [] s = Inr s"
| "redo_changes (c # cs) s =
     (case set_value (parameters s) (param_name c) (new_value c) of
        Inl e \<Rightarrow> Inl e
      | Inr ps \<Rightarrow>
          redo_changes cs
            (s\<lparr> current_values := (current_values s)(param_name c \<mapsto> new_value c),
                parameters := ps,
                effects := effects s @ [UpdateFile (param_name c) (new_value c),
                                NotifyChange (param_name c) (old_value c) (new_value c)] \<rparr>))"

definition undo :: "store \<Rightarrow> error + (bool \<times> store)" where
  "undo s =
     (if undo_stack s = [] then Inr (False, s)
      else
        let changes = last (undo_stack s);
            s1 = s\<lparr> undo_stack := butlast (undo_stack s) \<rparr>
        in case undo_changes changes s1 of
             Inl e \<Rightarrow> Inl e
           | Inr s2 \<Rightarrow>
               Inr (True,
                 s2\<lparr> redo_stack := redo_stack s2 @ [changes],
                     is_modified := True,
                     effects := effects s2 @ [NotifyFileModified] \<rparr>))"

definition redo :: "store \<Rightarrow> error + (bool \<times> store)" where
  "redo s =
     (if redo_stack s = [] then Inr (False, s)
      else
        let changes = last (redo_stack s);
            s1 = s\<lparr> redo_stack := butlast (redo_stack s) \<rparr>
        in case redo_changes changes s1 of
             Inl e \<Rightarrow> Inl e
           | Inr s2 \<Rightarrow>
               Inr (True,
                 s2\<lparr> undo_stack := undo_stack s2 @ [changes],
                     is_modified := True,
                     effects := effects s2 @ [NotifyFileModified] \<rparr>))"

text \<open>An example store: a float parameter with bounds, an integer one and a boolean one.\<close>

definition example_parameters :: "string \<rightharpoonup> param_data" where
  "example_parameters =
     [''amplitude'' \<mapsto> [''value'' \<mapsto> PFloat (Fin 1), ''type'' \<mapsto> PType TFloat,
                         ''min'' \<mapsto> PInt 0, ''max'' \<mapsto> PInt 10],
      ''count'' \<mapsto> [''value'' \<mapsto> PInt 3, ''type'' \<mapsto> PType TInt,
                     ''min'' \<mapsto> PInt 0, ''max'' \<mapsto> PInt 100],
      ''show_grid'' \<mapsto> [''value'' \<mapsto> PBool True, ''type'' \<mapsto> PType TBool]]"

definition example_store :: store where
  "example_store = ParameterManager example_parameters"



text \<open>A boolean parameter declared with all six metadata keys that
  \<^verbatim>\<open>validate_parameters\<close> requires and no bound (\<^verbatim>\<open>"min": None, "max": None\<close>), and a string
  parameter with numeric bounds.\<close>

definition unbounded_parameters :: "string \<rightharpoonup> param_data" where
  "unbounded_parameters =
     [''show_grid'' \<mapsto> [''value'' \<mapsto> PBool True, ''type'' \<mapsto> PType TBool,
                         ''unit'' \<mapsto> PStr [], ''description'' \<mapsto> PStr ''grid'',
                         ''min'' \<mapsto> PNone, ''max'' \<mapsto> PNone],
      ''title'' \<mapsto> [''value'' \<mapsto> PStr ''Hello'', ''type'' \<mapsto> PType TStr,
                     ''unit'' \<mapsto> PStr [], ''description'' \<mapsto> PStr ''title'',
                     ''min'' \<mapsto> PInt 0, ''max'' \<mapsto> PInt 100]]"

subsection \<open>Notions used to state the properties of the store\<close>

text \<open>The specification's words for the type check: a value has one of four runtime kinds
  (float, integer, boolean, string), the declared type is an enumeration mirroring them, and
  a value matches a declared type when its kind is that type.\<close>

fun runtime_kind :: "pyval \<Rightarrow> pytype option" where
  "runtime_kind (PFloat f) = Some TFloat"
| "runtime_kind (PInt i) = Some TInt"
| "runtime_kind (PBool b) = Some TBool"
| "runtime_kind (PStr s) = Some TStr"
| "runtime_kind PNone = None"
| "runtime_kind (PType t) = None"

definition spec_kind_matches :: "pytype \<Rightarrow> pyval \<Rightarrow> bool" where
  "spec_kind_matches t v = (runtime_kind v = Some t)"

text \<open>The part of a store that the undo/redo properties compare: the current values, the
  parameter specs and both stacks.\<close>

definition view :: "store \<Rightarrow> (string \<rightharpoonup> pyval) \<times> (string \<rightharpoonup> param_data) \<times> change list list \<times> change list list" where
  "view s = (current_values s, parameters s, undo_stack s, redo_stack s)"

text \<open>One \<^verbatim>\<open>undo()\<close> followed by one \<^verbatim>\<open>redo()\<close>, and \<open>n\<close> such pairs in a row.\<close>

definition undo_redo :: "store \<Rightarrow> error + store" where
  "undo_redo s =
     (case undo s of
        Inl e \<Rightarrow> Inl e
      | Inr (r, s') \<Rightarrow> (case redo s' of Inl e \<Rightarrow> Inl e | Inr (r', s'') \<Rightarrow> Inr s''))"

fun undo_redo_cycles :: "nat \<Rightarrow> store \<Rightarrow> error + store" where
  "undo_redo_cycles 0 s = Inr s"
| "undo_redo_cycles (Suc n) s =
     (case undo_redo s of Inl e \<Rightarrow> Inl e | Inr s' \<Rightarrow> undo_redo_cycles n s')"






section \<open>The extractor (parser.py)\<close>

subsection \<open>Syntax trees and literal extraction\<close>

text \<open>
  \<^verbatim>\<open>ast.parse\<close> belongs to the Python library: the syntax tree is an input of the model.
  Of an expression the model keeps what \<^verbatim>\<open>_extract_value\<close> distinguishes; every other
  expression is \<open>OtherExpr\<close>. A dictionary display pairs each value with its key node:
  \<open>NoKey\<close> for a \<^verbatim>\<open>**mapping\<close> item (whose key is \<^verbatim>\<open>None\<close> in the tree),
  \<open>ConstantKey\<close> for a string constant, \<open>ExprKey\<close> for any other expression; constant
  keys that are not strings are outside the model (parameter names and metadata keys are
  strings). A constant holds one of the scalar values above.

  Of the statements the model keeps the assignment, with its targets, its value and its
  1-based line number; any other node of the tree is a \<open>Node\<close> with its child nodes in
  the order of \<^verbatim>\<open>ast.iter_child_nodes\<close>. The children of an assignment are expressions,
  which contain no assignment, so they are not walked.
\<close>

datatype unaryop = USub | UAdd | NotOp | Invert

datatype key_node = NoKey | ConstantKey string | ExprKey

datatype expr =
    Dict "(key_node \<times> expr) list"
  | ListE "expr list"
  | TupleE "expr list"
  | Constant pyval
  | Name string
  | UnaryOp unaryop expr
  | OtherExpr

datatype node = Assign "expr list" expr nat | Node "node list"

text \<open>The values \<^verbatim>\<open>_extract_value\<close> builds: scalars, lists, tuples and dictionaries with
  string keys, in insertion order.\<close>

datatype pyobj =
    Val pyval
  | ObjList "pyobj list"
  | ObjTuple "pyobj list"
  | ObjDict "(string \<times> pyobj) list"

text \<open>Python's unary minus and plus: defined on \<^verbatim>\<open>int\<close>, \<^verbatim>\<open>bool\<close> (giving an
  \<^verbatim>\<open>int\<close>) and \<^verbatim>\<open>float\<close>; \<^verbatim>\<open>TypeError\<close> on everything else, \<^verbatim>\<open>None\<close> included.\<close>

fun float_neg :: "pyfloat \<Rightarrow> pyfloat" where
  "float_neg (Fin r) = Fin (- r)"
| "float_neg PosInf = NegInf"
| "float_neg NegInf = PosInf"
| "float_neg NaN = NaN"

fun py_neg :: "pyobj \<Rightarrow> error + pyobj" where
  "py_neg (Val (PInt i)) = Inr (Val (PInt (- i)))"
| "py_neg (Val (PBool b)) = Inr (Val (PInt (- (if b then 1 else 0))))"
| "py_neg (Val (PFloat f)) = Inr (Val (PFloat (float_neg f)))"
| "py_neg _ = Inl TypeError"

fun py_pos :: "pyobj \<Rightarrow> error + pyobj" where
  "py_pos (Val (PInt i)) = Inr (Val (PInt i))"
| "py_pos (Val (PBool b)) = Inr (Val (PInt (if b then 1 else 0)))"
| "py_pos (Val (PFloat f)) = Inr (Val (PFloat f))"
| "py_pos _ = Inl TypeError"

text \<open>\<^verbatim>\<open>d[k] = v\<close> on an insertion-ordered dictionary: an existing key keeps its place.\<close>

fun dict_set :: "(string \<times> 'v) list \<Rightarrow> string \<Rightarrow> 'v \<Rightarrow> (string \<times> 'v) list" where
  "dict_set [] k v = [(k, v)]"
| "dict_set ((k', v') # d) k v = (if k' = k then (k', v) # d else (k', v') # dict_set d k v)"

text \<open>\<^verbatim>\<open>_extract_value\<close>, with its list comprehension (\<open>extract_values\<close>) and the loop
  of \<^verbatim>\<open>_extract_dict_value\<close> over the zipped keys and values (\<open>extract_items\<close>). A name
  other than the seven recognised ones, an operator other than minus and plus, and any other
  expression fall through to the final \<^verbatim>\<open>return None\<close>. The operand of a unary operator
  is extracted before the operator is looked at.\<close>

fun extract_value :: "expr \<Rightarrow> error + pyobj"
  and extract_values :: "expr list \<Rightarrow> error + pyobj list"
  and extract_items :: "(key_node \<times> expr) list \<Rightarrow> (string \<times> pyobj) list \<Rightarrow> error + (string \<times> pyobj) list"
where
  "extract_value (Dict items) = map_sum id ObjDict (extract_items items [])"
| "extract_value (ListE elts) = map_sum id ObjList (extract_values elts)"
| "extract_value (TupleE elts) = map_sum id ObjTuple (extract_values elts)"
| "extract_value (Constant c) = Inr (Val c)"
| "extract_value (Name ident) =
     (if ident = ''True'' then Inr (Val (PBool True))
      else if ident = ''False'' then Inr (Val (PBool False))
      else if ident = ''None'' then Inr (Val PNone)
      else if ident = ''float'' then Inr (Val (PType TFloat))
      else if ident = ''int'' then Inr (Val (PType TInt))
      else if ident = ''bool'' then Inr (Val (PType TBool))
      else if ident = ''str'' then Inr (Val (PType TStr))
      else Inr (Val PNone))"
| "extract_value (UnaryOp op operand) =
     (case extract_value operand of
        Inl e \<Rightarrow> Inl e
      | Inr x \<Rightarrow>
          (case op of
             USub \<Rightarrow> py_neg x
           | UAdd \<Rightarrow> py_pos x
           | _ \<Rightarrow> Inr (Val PNone)))"
| "extract_value OtherExpr = Inr (Val PNone)"
| "extract_values [] = Inr []"
| "extract_values (e # es) =
     (case extract_value e of
        Inl err \<Rightarrow> Inl err
      | Inr x \<Rightarrow> (case extract_values es of Inl err \<Rightarrow> Inl err | Inr xs \<Rightarrow> Inr (x # xs)))"
| "extract_items [] result = Inr result"
| "extract_items ((key_node, value_node) # items) result =
     (case key_node of
        ConstantKey key \<Rightarrow>
          (case extract_value value_node of
             Inl err \<Rightarrow> Inl err
           | Inr x \<Rightarrow> extract_items items (dict_set result key x))
      | _ \<Rightarrow> extract_items items result)"

definition extract_dict_value :: "expr \<Rightarrow> error + (string \<times> pyobj) list" where
  "extract_dict_value n = (case n of Dict items \<Rightarrow> extract_items items [] | _ \<Rightarrow> Inr [])"

text \<open>\<^verbatim>\<open>ast.walk\<close>: breadth first, from a queue that starts with the root.\<close>

fun iter_child_nodes :: "node \<Rightarrow> node list" where
  "iter_child_nodes (Assign targets val lineno) = []"
| "iter_child_nodes (Node children) = children"

function walk :: "node list \<Rightarrow> node list" where
  "walk [] = []"
| "walk (n # todo) = n # walk (todo @ iter_child_nodes n)"
  by pat_completeness auto
termination
proof (relation "measure (size_list size)")
  show "wf (measure (size_list size))" by simp
next
  fix n :: node and todo :: "node list"
  show "(todo @ iter_child_nodes n, n # todo) \<in> measure (size_list size)"
    by (cases n) simp_all
qed

text \<open>The parser object: \<^verbatim>\<open>__init__\<close> reads the file, parses the text (a
  \<^verbatim>\<open>SyntaxError\<close> of \<^verbatim>\<open>ast.parse\<close> leaves the constructor) and splits it at the newline
  characters.\<close>

record parser =
  source_code :: string
  tree :: node
  lines :: "string list"

fun split_newline :: "string \<Rightarrow> string list" where
  "split_newline [] = [[]]"
| "split_newline (c # cs) =
     (if c = CHR 0x0A then [] # split_newline cs
      else (case split_newline cs of
              [] \<Rightarrow> [[c]]
            | l # ls \<Rightarrow> (c # l) # ls))"

definition ParameterParser :: "(string \<Rightarrow> error + node) \<Rightarrow> string \<Rightarrow> error + parser" where
  "ParameterParser ast_parse source =
     (case ast_parse source of
        Inl e \<Rightarrow> Inl e
      | Inr t \<Rightarrow> Inr \<lparr> source_code = source, tree = t, lines = split_newline source \<rparr>)"

text \<open>\<^verbatim>\<open>extract_parameters\<close> and \<^verbatim>\<open>_find_parameters_line\<close>: the first assignment, in
  walk order, one of whose targets is the name \<^verbatim>\<open>PARAMETERS\<close>.\<close>

fun is_PARAMETERS :: "expr \<Rightarrow> bool" where
  "is_PARAMETERS (Name ident) = (ident = ''PARAMETERS'')"
| "is_PARAMETERS _ = False"

fun find_parameters :: "node list \<Rightarrow> error + (string \<times> pyobj) list" where
  "find_parameters [] = Inr []"
| "find_parameters (Assign targets val lineno # nodes) =
     (if list_ex is_PARAMETERS targets then extract_dict_value val else find_parameters nodes)"
| "find_parameters (Node children # nodes) = find_parameters nodes"

definition extract_parameters :: "node \<Rightarrow> error + (string \<times> pyobj) list" where
  "extract_parameters t = find_parameters (walk [t])"

fun find_line :: "node list \<Rightarrow> nat option" where
  "find_line [] = None"
| "find_line (Assign targets val lineno # nodes) =
     (if list_ex is_PARAMETERS targets then Some (lineno - 1) else find_line nodes)"
| "find_line (Node children # nodes) = find_line nodes"

definition find_parameters_line :: "node \<Rightarrow> nat option" where
  "find_parameters_line t = find_line (walk [t])"

text \<open>A node that assigns to the name \<^verbatim>\<open>PARAMETERS\<close>.\<close>

fun assigns_PARAMETERS :: "node \<Rightarrow> bool" where
  "assigns_PARAMETERS (Assign targets val lineno) = list_ex is_PARAMETERS targets"
| "assigns_PARAMETERS (Node children) = False"

subsection \<open>Strings and the two comment patterns\<close>

text \<open>
  Characters are 8-bit: the source text is taken to be ASCII or Latin-1. \<open>is_space\<close> is
  the whitespace of \<^verbatim>\<open>str.strip\<close> and of \<^verbatim>\<open>\s\<close> in that range, \<open>is_upper\<close> is the
  class \<^verbatim>\<open>[A-Z]\<close>, and \<open>py_lower\<close> lowers the ASCII letters (the five keywords are ASCII,
  so the case of other letters does not matter to the keyword test).
\<close>

definition is_space :: "char \<Rightarrow> bool" where
  "is_space c = (c \<in> set [CHR 0x09, CHR 0x0A, CHR 0x0B, CHR 0x0C, CHR 0x0D, CHR 0x1C, CHR 0x1D,
                            CHR 0x1E, CHR 0x1F, CHR 0x20, CHR 0x85, CHR 0xA0])"

definition is_upper :: "char \<Rightarrow> bool" where
  "is_upper c = (c \<in> set ''ABCDEFGHIJKLMNOPQRSTUVWXYZ'')"

definition lower_char :: "char \<Rightarrow> char" where
  "lower_char c =
     (case map_of (zip ''ABCDEFGHIJKLMNOPQRSTUVWXYZ'' ''abcdefghijklmnopqrstuvwxyz'') c of
        None \<Rightarrow> c
      | Some l \<Rightarrow> l)"

definition py_lower :: "string \<Rightarrow> string" where
  "py_lower s = map lower_char s"

definition lstrip :: "string \<Rightarrow> string" where
  "lstrip s = dropWhile is_space s"

definition rstrip :: "string \<Rightarrow> string" where
  "rstrip s = rev (dropWhile is_space (rev s))"


fun starts_with :: "string \<Rightarrow> string \<Rightarrow> bool" where
  "starts_with s [] = True"
| "starts_with [] (p # ps) = False"
| "starts_with (c # s) (p # ps) = (c = p \<and> starts_with s ps)"

definition ends_with :: "string \<Rightarrow> string \<Rightarrow> bool" where
  "ends_with s suffix = starts_with (rev s) (rev suffix)"

text \<open>\<^verbatim>\<open>sub in s\<close>.\<close>

fun contains :: "string \<Rightarrow> string \<Rightarrow> bool" where
  "contains [] sub = (sub = [])"
| "contains (c # s) sub = (starts_with (c # s) sub \<or> contains s sub)"

definition after_last_hash :: "string \<Rightarrow> string" where
  "after_last_hash line = rev (takeWhile (\<lambda>c. c \<noteq> CHR ''#'') (rev line))"

text \<open>
  \<^verbatim>\<open>category_pattern.search(line)\<close> followed by \<^verbatim>\<open>match.group(1).strip()\<close>, for the
  pattern \<^verbatim>\<open>#\s*([A-Z][^#\n]+?)\s*$\<close> of \<^verbatim>\<open>get_categories\<close>. Every character the
  pattern consumes after its \<^verbatim>\<open>#\<close> is not a \<^verbatim>\<open>#\<close>, and the match must reach the end of
  the line (a line holds no newline), so only the last \<^verbatim>\<open>#\<close> of the line can start a
  match. After it, \<^verbatim>\<open>\s*\<close> has to take all the leading whitespace (giving some back leaves
  a space where \<^verbatim>\<open>[A-Z]\<close> is wanted), the next character has to be an upper-case ASCII
  letter and at least one more character has to follow. The group then ends where only
  whitespace remains, so its stripped text is the stripped rest of the line.
\<close>

definition category_pattern :: "string \<Rightarrow> string option" where
  "category_pattern line =
     (if CHR ''#'' \<notin> set line then None
      else case lstrip (after_last_hash line) of
             u # x # rest \<Rightarrow> if is_upper u then Some (rstrip (u # x # rest)) else None
           | _ \<Rightarrow> None)"

text \<open>
  The same for the pattern of \<^verbatim>\<open>_extract_category_lines\<close>,
  \<^verbatim>\<open>#\s*([A-Z][^#\n]+?Parameters?|[A-Z][^#\n]+?Settings?|[A-Z][^#\n]+?[Cc]onfig[^#\n]*)\s*$\<close>.
  Again only the last \<^verbatim>\<open>#\<close> can start a match and the text after it, without its leading
  whitespace, has to start with an upper-case ASCII letter. The first two alternatives need
  the text, without its trailing whitespace, to end in \<^verbatim>\<open>Parameter\<close>, \<^verbatim>\<open>Parameters\<close>,
  \<^verbatim>\<open>Setting\<close> or \<^verbatim>\<open>Settings\<close>, that word starting at the third character or later (the
  non-greedy \<^verbatim>\<open>+?\<close> takes at least one character after the capital). The third needs
  \<^verbatim>\<open>Config\<close> or \<^verbatim>\<open>config\<close> to occur from the third character on, anywhere. In each
  case the stripped group is the stripped rest of the line.
\<close>

definition category_lines_pattern :: "string \<Rightarrow> string option" where
  "category_lines_pattern line =
     (if CHR ''#'' \<notin> set line then None
      else
        let t = lstrip (after_last_hash line); r = rstrip t
        in if t \<noteq> [] \<and> is_upper (hd t)
              \<and> (ends_with (drop 2 r) ''Parameter'' \<or> ends_with (drop 2 r) ''Parameters''
                 \<or> ends_with (drop 2 r) ''Setting'' \<or> ends_with (drop 2 r) ''Settings''
                 \<or> contains (drop 2 t) ''Config'' \<or> contains (drop 2 t) ''config'')
           then Some r else None)"

subsection \<open>Categories\<close>

text \<open>The keyword test of the first loop of \<^verbatim>\<open>get_categories\<close>.\<close>

definition has_keyword :: "string \<Rightarrow> bool" where
  "has_keyword category_text =
     list_ex (\<lambda>keyword. contains (py_lower category_text) keyword)
       [''parameter'', ''setting'', ''config'', ''option'', ''property'']"

text \<open>The first loop: \<^verbatim>\<open>current_params\<close> stays empty throughout, so all the loop leaves
  behind is \<^verbatim>\<open>current_category\<close>, the text of the last header it saw, and the dictionary
  \<^verbatim>\<open>categories\<close> ends as that one name with an empty list.\<close>

fun last_header :: "string list \<Rightarrow> string \<Rightarrow> string" where
  "last_header [] current_category = current_category"
| "last_header (line # ls) current_category =
     (case category_pattern line of
        None \<Rightarrow> last_header ls current_category
      | Some category_text \<Rightarrow>
          if has_keyword category_text then last_header ls category_text
          else last_header ls current_category)"

text \<open>\<^verbatim>\<open>_extract_category_lines\<close>: line number to category text, for the lines from
  \<^verbatim>\<open>start_line\<close> on that match.\<close>

definition extract_category_lines :: "string list \<Rightarrow> nat \<Rightarrow> (nat \<times> string) list" where
  "extract_category_lines ls start_line =
     List.map_filter (\<lambda>i. map_option (Pair i) (category_lines_pattern (ls ! i)))
       [start_line..<length ls]"

text \<open>\<^verbatim>\<open>_find_parameter_lines\<close>: for each key the first line from \<^verbatim>\<open>start_line\<close> on
  that holds the key between double or between single quotes.\<close>

definition mentions :: "string \<Rightarrow> string \<Rightarrow> bool" where
  "mentions line key =
     (contains line ([CHR 0x22] @ key @ [CHR 0x22]) \<or> contains line ([CHR 0x27] @ key @ [CHR 0x27]))"

fun find_parameter_lines :: "string list \<Rightarrow> string list \<Rightarrow> nat \<Rightarrow> (string \<times> nat) list \<Rightarrow> (string \<times> nat) list" where
  "find_parameter_lines ls [] start_line param_lines = param_lines"
| "find_parameter_lines ls (key # keys) start_line param_lines =
     (case List.find (\<lambda>i. mentions (ls ! i) key) [start_line..<length ls] of
        None \<Rightarrow> find_parameter_lines ls keys start_line param_lines
      | Some i \<Rightarrow> find_parameter_lines ls keys start_line (dict_set param_lines key i))"

text \<open>The inner loop over \<^verbatim>\<open>sorted(categories_by_line.items(), reverse=True)\<close>: the
  category of the greatest line number below the parameter's line.\<close>

definition closest_category :: "(nat \<times> string) list \<Rightarrow> nat \<Rightarrow> string" where
  "closest_category categories_by_line param_line =
     (case List.find (\<lambda>(cat_line, cat_name). cat_line < param_line)
             (rev (sort_key fst categories_by_line)) of
        None \<Rightarrow> ''Default''
      | Some (cat_line, cat_name) \<Rightarrow> cat_name)"

text \<open>The body of the outer loop on the dictionary \<^verbatim>\<open>result\<close>. Both keys it reads are
  present when it reads them: the assigned category was inserted just before, and
  \<^verbatim>\<open>"Default"\<close> was stored before the loop.\<close>

definition dict_get :: "(string \<times> string list) list \<Rightarrow> string \<Rightarrow> string list" where
  "dict_get d k = (case map_of d k of None \<Rightarrow> [] | Some v \<Rightarrow> v)"

definition assign_param :: "(string \<times> string list) list \<Rightarrow> string \<Rightarrow> string \<Rightarrow> (string \<times> string list) list" where
  "assign_param result param_key assigned_category =
     (let r1 = (if assigned_category \<notin> fst ` set result then dict_set result assigned_category [] else result);
          r2 = (if param_key \<notin> set (dict_get r1 assigned_category)
                then dict_set r1 assigned_category (dict_get r1 assigned_category @ [param_key])
                else r1)
      in if assigned_category \<noteq> ''Default'' \<and> param_key \<in> set (dict_get r2 ''Default'')
         then dict_set r2 ''Default'' (remove1 param_key (dict_get r2 ''Default''))
         else r2)"

fun assign_params :: "(nat \<times> string) list \<Rightarrow> (string \<times> nat) list \<Rightarrow> (string \<times> string list) list \<Rightarrow> (string \<times> string list) list" where
  "assign_params categories_by_line [] result = result"
| "assign_params categories_by_line ((param_key, param_line) # items) result =
     assign_params categories_by_line items
       (assign_param result param_key (closest_category categories_by_line param_line))"

definition get_categories :: "parser \<Rightarrow> error + (string \<times> string list) list" where
  "get_categories p =
     (case extract_parameters (tree p) of
        Inl e \<Rightarrow> Inl e
      | Inr params \<Rightarrow>
          if params = [] then Inr []
          else (case find_parameters_line (tree p) of
                  None \<Rightarrow> Inr [(''Default'', map fst params)]
                | Some params_line_num \<Rightarrow>
                    let current_category = last_header (drop params_line_num (lines p)) ''Default'';
                        param_keys = map fst params;
                        param_line_numbers = find_parameter_lines (lines p) param_keys params_line_num [];
                        categories_by_line = extract_category_lines (lines p) params_line_num;
                        result = dict_set [(current_category, [])] ''Default'' param_keys
                    in Inr (filter (\<lambda>(k, v). v \<noteq> [])
                              (assign_params categories_by_line param_line_numbers result))))"

subsection \<open>Notions used to state the properties of the extractor\<close>

text \<open>The names of a category map, as a multiset, and the invariant of the assignment loop:
  the categories have distinct names, their lists together hold exactly the extracted names,
  \<^verbatim>\<open>"Default"\<close> is a category, and the names still to be assigned are in its list.\<close>

definition all_names :: "(string \<times> string list) list \<Rightarrow> string multiset" where
  "all_names d = mset (concat (map snd d))"

definition cat_inv :: "string list \<Rightarrow> string list \<Rightarrow> (string \<times> string list) list \<Rightarrow> bool" where
  "cat_inv keys remaining result =
     (distinct (map fst result) \<and> all_names result = mset keys
      \<and> ''Default'' \<in> fst ` set result
      \<and> set remaining \<subseteq> set (dict_get result ''Default''))"


text \<open>Two scripts: one with a header \<^verbatim>\<open># Physical Parameters\<close> and a later comment
  \<^verbatim>\<open># Display Options\<close>, one with the comment \<^verbatim>\<open># Display Options\<close> alone.\<close>

definition example_source :: string where
  "example_source =
     ''PARAMETERS = {'' @ [CHR 0x0A] @
     ''    # Physical Parameters'' @ [CHR 0x0A] @
     ''    '' @ [CHR 0x22] @ ''amplitude'' @ [CHR 0x22] @ '': {'' @ [CHR 0x22] @ ''value'' @ [CHR 0x22] @ '': 1.0},'' @ [CHR 0x0A] @
     ''    # Display Options'' @ [CHR 0x0A] @
     ''    '' @ [CHR 0x22] @ ''show_grid'' @ [CHR 0x22] @ '': {'' @ [CHR 0x22] @ ''value'' @ [CHR 0x22] @ '': True},'' @ [CHR 0x0A] @
     ''}''"

definition example_tree :: node where
  "example_tree =
     Node [Assign [Name ''PARAMETERS'']
             (Dict [(ConstantKey ''amplitude'', Dict [(ConstantKey ''value'', Constant (PFloat (Fin 1)))]),
                    (ConstantKey ''show_grid'', Dict [(ConstantKey ''value'', Constant (PBool True))])])
             1]"

definition example_parser :: parser where
  "example_parser = \<lparr> source_code = example_source, tree = example_tree, lines = split_newline example_source \<rparr>"




text \<open>A script without any assignment to \<^verbatim>\<open>PARAMETERS\<close>: \<^verbatim>\<open>x = 1\<close> inside a compound
  statement.\<close>

definition plain_tree :: node where
  "plain_tree = Node [Node [Assign [Name ''x''] (Constant (PInt 1)) 2]]"


section \<open>The process controller (manim\_runner.py)\<close>

text \<open>
  \<^verbatim>\<open>stop()\<close> itself is sequential code; what it reads of the outside world is the answer
  of \<^verbatim>\<open>process.poll()\<close>. The model of the runner holds the recorded status, the process
  handle (absent, or present with what \<^verbatim>\<open>poll()\<close> answers: still running, or an exit
  code), the cancellation flag \<^verbatim>\<open>stop_event\<close>, the status queue and the threads started.
  Other threads, which may change the status between two calls, are not part of it.
\<close>

datatype ManimProcessStatus = IDLE | RUNNING | STOPPING | FINISHED | ERROR | STOPPED

datatype poll = Alive | Exited int

datatype thread = ManimCleanupThread

record runner =
  status :: ManimProcessStatus
  process :: "poll option"
  stop_event :: bool
  status_queue :: "ManimProcessStatus list"
  started_threads :: "thread list"

definition set_status :: "runner \<Rightarrow> ManimProcessStatus \<Rightarrow> runner" where
  "set_status r st = r\<lparr> status := st, status_queue := status_queue r @ [st] \<rparr>"

definition stop :: "runner \<Rightarrow> bool \<times> runner" where
  "stop r =
     (if status r \<noteq> RUNNING then (False, r)
      else if (case process r of None \<Rightarrow> True | Some Alive \<Rightarrow> False | Some (Exited rc) \<Rightarrow> True)
      then (False, set_status r STOPPED)
      else
        let r1 = r\<lparr> stop_event := True \<rparr>;
            r2 = set_status r1 STOPPING
        in (True, r2\<lparr> started_threads := started_threads r2 @ [ManimCleanupThread] \<rparr>))"

definition running_runner :: runner where
  "running_runner =
     \<lparr> status = RUNNING, process = Some Alive, stop_event = False,
       status_queue = [RUNNING], started_threads = [] \<rparr>"

definition exited_runner :: runner where
  "exited_runner =
     \<lparr> status = RUNNING, process = Some (Exited 0), stop_event = False,
       status_queue = [RUNNING], started_threads = [] \<rparr>"

definition idle_runner :: runner where
  "idle_runner =
     \<lparr> status = IDLE, process = None, stop_event = False,
       status_queue = [], started_threads = [] \<rparr>"


section \<open>Properties of the parameter store\<close>

lemmas example_simps = example_store_def ParameterManager_def example_parameters_def
  validate_type_def validate_bounds_def py_lt_def py_gt_def py_eq_def set_value_def


text \<open>A value whose runtime kind is the declared type passes the type check.\<close>

lemma kind_match_validates:
  assumes "parameters s name = Some pd" and "pd ''type'' = Some (PType t)"
    and "spec_kind_matches t v"
  shows "validate_type s name v"
  using assms by (cases t; cases v) (simp_all add: validate_type_def spec_kind_matches_def)



text \<open>
  Claim C2, as the specification words it, fails: an integer is a value whose runtime kind
  is not the declared type \<^verbatim>\<open>float\<close>, and \<^verbatim>\<open>set_parameter\<close> accepts it for a float
  parameter (\<^verbatim>\<open>isinstance(value, (int, float))\<close>).
\<close>

theorem set_parameter_kind_counterexample:
  "\<not> spec_kind_matches TFloat (PInt 3)
   \<and> (\<exists>pd. parameters example_store ''amplitude'' = Some pd \<and> pd ''type'' = Some (PType TFloat))
   \<and> (\<exists>s'. set_parameter example_store ''amplitude'' (PInt 3) = Inr (True, s')
           \<and> current_values s' ''amplitude'' = Some (PInt 3))"
  by (simp add: spec_kind_matches_def set_parameter_def example_simps)

text \<open>
  Claim C2, amended. \<^verbatim>\<open>set_parameter\<close> returns \<^verbatim>\<open>False\<close> and leaves the whole store as it
  was when the name is unknown, or the value equals the current one (Python's \<^verbatim>\<open>==\<close>), or
  the type check rejects the value, or the bounds check finds it below a present minimum or
  above a present maximum.
\<close>

theorem set_parameter_rejected:
  assumes "current_values s name = None
         \<or> (\<exists>old. current_values s name = Some old \<and> py_eq old v)
         \<or> \<not> validate_type s name v
         \<or> validate_bounds s name v = Inr False"
  shows "set_parameter s name v = Inr (False, s)"
  using assms by (auto simp: set_parameter_def split: option.splits sum.splits bool.splits)

text \<open>C2 at the example store: \<^verbatim>\<open>set_parameter("count", 200)\<close> with \<^verbatim>\<open>"max": 100\<close>.\<close>

theorem set_parameter_rejected_witness:
  "validate_bounds example_store ''count'' (PInt 200) = Inr False
   \<and> set_parameter example_store ''count'' (PInt 200) = Inr (False, example_store)"
proof -
  have h: "validate_bounds example_store ''count'' (PInt 200) = Inr False"
    by (simp add: example_simps)
  then have "current_values example_store ''count'' = None
         \<or> (\<exists>old. current_values example_store ''count'' = Some old \<and> py_eq old (PInt 200))
         \<or> \<not> validate_type example_store ''count'' (PInt 200)
         \<or> validate_bounds example_store ''count'' (PInt 200) = Inr False" by blast
  from set_parameter_rejected [OF this] h show ?thesis by blast
qed

text \<open>What the type check accepts, by declared type: \<^verbatim>\<open>float\<close> takes integers and floats,
  \<^verbatim>\<open>int\<close> integers, \<^verbatim>\<open>bool\<close> booleans, \<^verbatim>\<open>str\<close> strings, and a boolean is neither an
  integer nor a float.\<close>

lemma validate_type_declared:
  assumes "parameters s name = Some pd" and "pd ''type'' = Some (PType t)"
  shows "validate_type s name v =
           (case t of
              TFloat \<Rightarrow> runtime_kind v = Some TFloat \<or> runtime_kind v = Some TInt
            | TInt \<Rightarrow> runtime_kind v = Some TInt
            | TBool \<Rightarrow> runtime_kind v = Some TBool
            | TStr \<Rightarrow> runtime_kind v = Some TStr)"
  using assms by (cases t; cases v) (simp_all add: validate_type_def)

subsection \<open>Undo and redo\<close>

lemma undo_empty: "undo_stack s = [] \<Longrightarrow> undo s = Inr (False, s)"
  by (simp add: undo_def)

lemma set_parameter_TrueD:
  assumes "set_parameter s name v = Inr (True, s1)"
  shows "\<exists>old pd. current_values s name = Some old \<and> parameters s name = Some pd
           \<and> s1 = s\<lparr> current_values := (current_values s)(name \<mapsto> v),
                     parameters := (parameters s)(name \<mapsto> pd(''value'' \<mapsto> v)),
                     undo_stack := undo_stack s @ [[ParameterChange name old v]],
                     redo_stack := [],
                     effects := effects s @ [UpdateFile name v, NotifyChange name old v, NotifyFileModified],
                     is_modified := True \<rparr>"
  using assms
  by (auto simp: set_parameter_def set_value_def split: option.splits sum.splits bool.splits if_splits)

lemma undo_single:
  assumes "undo_stack t = us @ [[ParameterChange name old v]]" and "parameters t name = Some pd"
  shows "\<exists>u. undo t = Inr (True, u)
           \<and> current_values u = (current_values t)(name \<mapsto> old)
           \<and> parameters u = (parameters t)(name \<mapsto> pd(''value'' \<mapsto> old))
           \<and> undo_stack u = us
           \<and> redo_stack u = redo_stack t @ [[ParameterChange name old v]]"
  using assms by (simp add: undo_def set_value_def Let_def)

lemma redo_single:
  assumes "redo_stack t = rs @ [[ParameterChange name old v]]" and "parameters t name = Some pd"
  shows "\<exists>u. redo t = Inr (True, u)
           \<and> current_values u = (current_values t)(name \<mapsto> v)
           \<and> parameters u = (parameters t)(name \<mapsto> pd(''value'' \<mapsto> v))
           \<and> undo_stack u = undo_stack t @ [[ParameterChange name old v]]
           \<and> redo_stack u = rs"
  using assms by (simp add: redo_def set_value_def Let_def)

lemma undo_changes_general:
  "\<forall>c\<in>set b. parameters s (param_name c) \<noteq> None \<Longrightarrow>
   \<exists>s'. undo_changes b s = Inr s'
      \<and> current_values s' = foldl (\<lambda>m c. m(param_name c \<mapsto> old_value c)) (current_values s) b
      \<and> undo_stack s' = undo_stack s \<and> redo_stack s' = redo_stack s"
proof (induction b arbitrary: s)
  case Nil
  then show ?case by simp
next
  case (Cons c b)
  from Cons.prems obtain pd where pd: "parameters s (param_name c) = Some pd" by auto
  let ?s1 = "s\<lparr> current_values := (current_values s)(param_name c \<mapsto> old_value c),
                parameters := (parameters s)(param_name c \<mapsto> pd(''value'' \<mapsto> old_value c)),
                effects := effects s @ [UpdateFile (param_name c) (old_value c),
                                NotifyChange (param_name c) (new_value c) (old_value c)] \<rparr>"
  have "\<forall>c'\<in>set b. parameters ?s1 (param_name c') \<noteq> None"
    using Cons.prems by simp
  from Cons.IH [OF this] pd show ?case
    by (simp add: set_value_def)
qed

lemma undo_general:
  assumes "undo_stack t = us @ [b]" and "\<forall>c\<in>set b. parameters t (param_name c) \<noteq> None"
  shows "\<exists>t'. undo t = Inr (True, t')
           \<and> current_values t' = foldl (\<lambda>m c. m(param_name c \<mapsto> old_value c)) (current_values t) b
           \<and> undo_stack t' = us
           \<and> redo_stack t' = redo_stack t @ [b]"
proof -
  let ?t1 = "t\<lparr> undo_stack := us \<rparr>"
  have "\<forall>c\<in>set b. parameters ?t1 (param_name c) \<noteq> None" using assms(2) by simp
  from undo_changes_general [OF this] obtain t2 where
    t2: "undo_changes b ?t1 = Inr t2"
        "current_values t2 = foldl (\<lambda>m c. m(param_name c \<mapsto> old_value c)) (current_values t) b"
        "undo_stack t2 = us" "redo_stack t2 = redo_stack t"
    by auto
  show ?thesis using assms(1) t2 by (simp add: undo_def Let_def)
qed

lemma cycle_step:
  assumes "undo_stack t = us @ [[ParameterChange name old v]]" and "redo_stack t = []"
    and "current_values t name = Some v" and "parameters t name = Some pd"
    and "pd ''value'' = Some v"
  shows "\<exists>u t'. undo t = Inr (True, u) \<and> redo u = Inr (True, t')
           \<and> undo_redo t = Inr t' \<and> view t' = view t"
proof -
  from undo_single [OF assms(1) assms(4)] obtain u where
    u: "undo t = Inr (True, u)" "current_values u = (current_values t)(name \<mapsto> old)"
       "parameters u = (parameters t)(name \<mapsto> pd(''value'' \<mapsto> old))"
       "undo_stack u = us" "redo_stack u = redo_stack t @ [[ParameterChange name old v]]"
    by blast
  have ru: "redo_stack u = [] @ [[ParameterChange name old v]]" using u(5) assms(2) by simp
  have pu: "parameters u name = Some (pd(''value'' \<mapsto> old))" using u(3) by simp
  from redo_single [OF ru pu] obtain t' where
    t': "redo u = Inr (True, t')" "current_values t' = (current_values u)(name \<mapsto> v)"
        "parameters t' = (parameters u)(name \<mapsto> (pd(''value'' \<mapsto> old))(''value'' \<mapsto> v))"
        "undo_stack t' = undo_stack u @ [[ParameterChange name old v]]" "redo_stack t' = []"
    by blast
  have cv: "current_values t' = current_values t"
    using t'(2) u(2) assms(3) by (simp add: map_upd_triv)
  have "pd(''value'' \<mapsto> v) = pd" using assms(5) by (simp add: map_upd_triv)
  then have ps: "parameters t' = parameters t"
    using t'(3) u(3) assms(4) by (simp add: map_upd_triv)
  show ?thesis
    using u(1) t'(1) cv ps t'(4) t'(5) u(4) assms(1,2) by (simp add: undo_redo_def view_def)
qed

lemma cycles_inv:
  assumes "undo_stack t = us @ [[ParameterChange name old v]]" and "redo_stack t = []"
    and "current_values t name = Some v" and "parameters t name = Some pd"
    and "pd ''value'' = Some v"
  shows "\<exists>t'. undo_redo_cycles n t = Inr t' \<and> view t' = view t"
  using assms
proof (induction n arbitrary: t)
  case 0
  then show ?case by simp
next
  case (Suc n)
  from cycle_step [OF Suc.prems] obtain t1 where
    t1: "undo_redo t = Inr t1" "view t1 = view t" by blast
  have "undo_stack t1 = us @ [[ParameterChange name old v]]" "redo_stack t1 = []"
    "current_values t1 name = Some v" "parameters t1 name = Some pd"
    using t1(2) Suc.prems by (simp_all add: view_def)
  from Suc.IH [OF this Suc.prems(5)] t1 show ?case by simp
qed

text \<open>
  Claim C3. After a successful \<^verbatim>\<open>set_parameter\<close>, \<^verbatim>\<open>undo()\<close> returns \<^verbatim>\<open>True\<close>, restores
  the prior current values, pops the batch and leaves it alone on the redo stack;
  \<^verbatim>\<open>redo()\<close> then returns \<^verbatim>\<open>True\<close> and brings back the state after the set (current
  values, specs and both stacks); any number of undo/redo pairs ends in that same state, and
  one more \<^verbatim>\<open>undo()\<close> in the same undone state. On any store, \<^verbatim>\<open>undo()\<close> of a batch stores
  the old value of each of its changes in their order and moves the batch to the redo stack,
  and \<^verbatim>\<open>undo()\<close> on an empty undo stack returns \<^verbatim>\<open>False\<close> and changes nothing.
\<close>

theorem undo_redo_after_set:
  assumes "set_parameter s name v = Inr (True, s1)"
  shows "(\<exists>s2. undo s1 = Inr (True, s2)
            \<and> current_values s2 = current_values s
            \<and> undo_stack s2 = undo_stack s
            \<and> redo_stack s2 = [last (undo_stack s1)]
            \<and> (\<exists>s3. redo s2 = Inr (True, s3) \<and> view s3 = view s1)
            \<and> (\<forall>n. \<exists>t. undo_redo_cycles n s1 = Inr t \<and> view t = view s1
                   \<and> (\<exists>u. undo t = Inr (True, u) \<and> view u = view s2)))
       \<and> (\<forall>t us b. undo_stack t = us @ [b] \<and> (\<forall>c\<in>set b. parameters t (param_name c) \<noteq> None) \<longrightarrow>
             (\<exists>t'. undo t = Inr (True, t')
                \<and> current_values t' = foldl (\<lambda>m c. m(param_name c \<mapsto> old_value c)) (current_values t) b
                \<and> undo_stack t' = us
                \<and> redo_stack t' = redo_stack t @ [b]))
       \<and> (\<forall>t. undo_stack t = [] \<longrightarrow> undo t = Inr (False, t))"
proof -
  from set_parameter_TrueD [OF assms] obtain old pd where
    old: "current_values s name = Some old" and pd: "parameters s name = Some pd"
    and s1: "s1 = s\<lparr> current_values := (current_values s)(name \<mapsto> v),
                     parameters := (parameters s)(name \<mapsto> pd(''value'' \<mapsto> v)),
                     undo_stack := undo_stack s @ [[ParameterChange name old v]],
                     redo_stack := [],
                     effects := effects s @ [UpdateFile name v, NotifyChange name old v, NotifyFileModified],
                     is_modified := True \<rparr>"
    by blast
  let ?pd1 = "pd(''value'' \<mapsto> v)"
  have a1: "undo_stack s1 = undo_stack s @ [[ParameterChange name old v]]" using s1 by simp
  have a2: "redo_stack s1 = []" using s1 by simp
  have a3: "current_values s1 name = Some v" using s1 by simp
  have a4: "parameters s1 name = Some ?pd1" using s1 by simp
  have a5: "?pd1 ''value'' = Some v" by simp
  from undo_single [OF a1 a4] obtain s2 where
    s2: "undo s1 = Inr (True, s2)" "current_values s2 = (current_values s1)(name \<mapsto> old)"
        "parameters s2 = (parameters s1)(name \<mapsto> ?pd1(''value'' \<mapsto> old))"
        "undo_stack s2 = undo_stack s" "redo_stack s2 = redo_stack s1 @ [[ParameterChange name old v]]"
    by blast
  have cv2: "current_values s2 = current_values s"
    using s2(2) s1 old by (simp add: map_upd_triv)
  have r2: "redo_stack s2 = [last (undo_stack s1)]" using s2(5) a1 a2 by simp
  from cycle_step [OF a1 a2 a3 a4 a5] s2(1) obtain s3 where
    s3: "redo s2 = Inr (True, s3)" "view s3 = view s1"
    by auto
  have cyc: "\<exists>t. undo_redo_cycles n s1 = Inr t \<and> view t = view s1
                \<and> (\<exists>u. undo t = Inr (True, u) \<and> view u = view s2)" for n
  proof -
    from cycles_inv [OF a1 a2 a3 a4 a5] obtain t where
      t: "undo_redo_cycles n s1 = Inr t" "view t = view s1" by blast
    have b1: "undo_stack t = undo_stack s @ [[ParameterChange name old v]]"
      and b4: "parameters t name = Some ?pd1"
      using t(2) a1 a4 by (simp_all add: view_def)
    from undo_single [OF b1 b4] obtain u where
      u: "undo t = Inr (True, u)" "current_values u = (current_values t)(name \<mapsto> old)"
         "parameters u = (parameters t)(name \<mapsto> ?pd1(''value'' \<mapsto> old))"
         "undo_stack u = undo_stack s" "redo_stack u = redo_stack t @ [[ParameterChange name old v]]"
      by blast
    have "view u = view s2" using u s2 t(2) by (simp add: view_def)
    with t u(1) show ?thesis by blast
  qed
  have first: "\<exists>s2. undo s1 = Inr (True, s2)
            \<and> current_values s2 = current_values s
            \<and> undo_stack s2 = undo_stack s
            \<and> redo_stack s2 = [last (undo_stack s1)]
            \<and> (\<exists>s3. redo s2 = Inr (True, s3) \<and> view s3 = view s1)
            \<and> (\<forall>n. \<exists>t. undo_redo_cycles n s1 = Inr t \<and> view t = view s1
                   \<and> (\<exists>u. undo t = Inr (True, u) \<and> view u = view s2))"
    using s2(1) cv2 s2(4) r2 s3 cyc by blast
  show ?thesis using first undo_general undo_empty by blast
qed

text \<open>C3 at the example store: \<^verbatim>\<open>set_parameter("count", 7)\<close>, undo, redo, five cycles.\<close>

theorem undo_redo_after_set_witness:
  "\<exists>s1. set_parameter example_store ''count'' (PInt 7) = Inr (True, s1)
      \<and> (\<exists>s2. undo s1 = Inr (True, s2)
            \<and> current_values s2 ''count'' = Some (PInt 3)
            \<and> undo_stack s2 = []
            \<and> (\<exists>s3. redo s2 = Inr (True, s3) \<and> current_values s3 ''count'' = Some (PInt 7))
            \<and> (\<exists>t. undo_redo_cycles 5 s1 = Inr t \<and> view t = view s1))"
proof -
  have c: "current_values example_store ''count'' = Some (PInt 3)" by (simp add: example_simps)
  have u: "undo_stack example_store = []" by (simp add: example_simps)
  have "\<exists>s1. set_parameter example_store ''count'' (PInt 7) = Inr (True, s1)
            \<and> current_values s1 ''count'' = Some (PInt 7)"
    by (simp add: set_parameter_def example_simps)
  then obtain s1 where s1: "set_parameter example_store ''count'' (PInt 7) = Inr (True, s1)"
    and c1: "current_values s1 ''count'' = Some (PInt 7)" by blast
  from undo_redo_after_set [OF s1] obtain s2 where
    s2: "undo s1 = Inr (True, s2)" "current_values s2 = current_values example_store"
        "undo_stack s2 = undo_stack example_store"
        "\<exists>s3. redo s2 = Inr (True, s3) \<and> view s3 = view s1"
        "\<forall>n. \<exists>t. undo_redo_cycles n s1 = Inr t \<and> view t = view s1
               \<and> (\<exists>u. undo t = Inr (True, u) \<and> view u = view s2)"
    by blast
  from s2(4) obtain s3 where s3: "redo s2 = Inr (True, s3)" "view s3 = view s1" by blast
  have c3: "current_values s3 ''count'' = Some (PInt 7)" using s3(2) c1 by (simp add: view_def)
  from s2(5) obtain t where t: "undo_redo_cycles 5 s1 = Inr t" "view t = view s1" by blast
  show ?thesis using s1 s2(1,2,3) c u s3(1) c3 t by auto
qed

subsection \<open>Batch updates\<close>







text \<open>
  Claim C4 on the code: \<^verbatim>\<open>set_parameters_batch\<close> does not return a result map for every
  update map. A parameter whose metadata has \<^verbatim>\<open>"min": None\<close>, or a string parameter with a
  numeric minimum, makes the comparison \<^verbatim>\<open>value < param_data["min"]\<close> of
  \<^verbatim>\<open>_validate_bounds\<close> raise \<^verbatim>\<open>TypeError\<close>, which leaves \<^verbatim>\<open>set_parameters_batch\<close>.
\<close>

theorem batch_raises_on_incomparable_bound:
  "set_parameters_batch (ParameterManager unbounded_parameters) [(''show_grid'', PBool False)]
     = Inl TypeError
   \<and> set_parameters_batch (ParameterManager unbounded_parameters) [(''title'', PStr ''World'')]
     = Inl TypeError"
  by (simp add: set_parameters_batch_def unbounded_parameters_def ParameterManager_def
      validate_type_def validate_bounds_def py_lt_def)






section \<open>Properties of the extractor\<close>

subsection \<open>Dictionaries in insertion order\<close>

lemma map_fst_dict_set:
  "map fst (dict_set d k v) = (if k \<in> fst ` set d then map fst d else map fst d @ [k])"
proof (induction d)
  case Nil
  then show ?case by simp
next
  case (Cons x d)
  obtain k' v' where x: "x = (k', v')" by (cases x)
  show ?case
  proof (cases "k' = k")
    case True
    then show ?thesis using x by simp
  next
    case False
    then have "(k \<in> fst ` set (x # d)) = (k \<in> fst ` set d)" using x by auto
    then show ?thesis using False x Cons.IH by simp
  qed
qed

lemma distinct_dict_set: "distinct (map fst d) \<Longrightarrow> distinct (map fst (dict_set d k v))"
  by (simp add: map_fst_dict_set)

lemma map_of_dict_set:
  "map_of (dict_set d k v) = (map_of d)(k \<mapsto> v)"
  by (induction d) (auto simp: fun_eq_iff)

lemma dict_get_dict_set:
  "dict_get (dict_set d k v) k' = (if k' = k then v else dict_get d k')"
  by (simp add: dict_get_def map_of_dict_set)

lemma dict_get_absent: "c \<notin> fst ` set d \<Longrightarrow> dict_get d c = []"
proof -
  assume "c \<notin> fst ` set d"
  then have "map_of d c = None" by (simp add: map_of_eq_None_iff)
  then show ?thesis by (simp add: dict_get_def)
qed

lemma fst_set_dict_set: "fst ` set (dict_set d k v) = insert k (fst ` set d)"
proof -
  have "set (map fst (dict_set d k v)) = insert k (set (map fst d))"
    unfolding map_fst_dict_set by auto
  then show ?thesis by simp
qed

lemma all_names_dict_set_new:
  "k \<notin> fst ` set d \<Longrightarrow> all_names (dict_set d k v) = all_names d + mset v"
  by (induction d) (auto simp: all_names_def)

lemma all_names_dict_set_old:
  "distinct (map fst d) \<Longrightarrow> k \<in> fst ` set d \<Longrightarrow>
   all_names (dict_set d k v) + mset (dict_get d k) = all_names d + mset v"
proof (induction d)
  case Nil
  then show ?case by simp
next
  case (Cons x d)
  obtain k' v' where x: "x = (k', v')" by (cases x)
  show ?case
  proof (cases "k' = k")
    case True
    then show ?thesis using x by (simp add: all_names_def dict_get_def)
  next
    case False
    then have "k \<in> fst ` set d" and "distinct (map fst d)" using Cons.prems x by auto
    from Cons.IH [OF this(2) this(1)] False x show ?thesis
      by (simp add: all_names_def dict_get_def)
  qed
qed

lemma two_lists_in_all_names:
  "distinct (map fst d) \<Longrightarrow> a \<noteq> b \<Longrightarrow> mset (dict_get d a) + mset (dict_get d b) \<subseteq># all_names d"
proof (induction d)
  case Nil
  then show ?case by (simp add: dict_get_def all_names_def)
next
  case (Cons x d)
  obtain k' v' where x: "x = (k', v')" by (cases x)
  have d: "distinct (map fst d)" and nin: "k' \<notin> fst ` set d" using Cons.prems(1) x by auto
  have none: "map_of d k' = None" using nin by (simp add: map_of_eq_None_iff)
  have one: "mset (dict_get d c) \<subseteq># all_names d" for c
  proof (cases "map_of d c")
    case None
    then show ?thesis by (simp add: dict_get_def)
  next
    case (Some l)
    then have "(c, l) \<in> set d" by (rule map_of_SomeD)
    then obtain d1 d2 where "d = d1 @ (c, l) # d2" by (auto simp: in_set_conv_decomp)
    then show ?thesis using Some by (simp add: dict_get_def all_names_def)
  qed
  show ?case
  proof (cases "k' = a")
    case True
    then have "dict_get (x # d) a = v'" and "dict_get (x # d) b = dict_get d b"
      using x Cons.prems(2) by (simp_all add: dict_get_def)
    then show ?thesis using one [of b] x by (simp add: all_names_def)
  next
    case False
    note na = this
    show ?thesis
    proof (cases "k' = b")
      case True
      then have "dict_get (x # d) b = v'" and "dict_get (x # d) a = dict_get d a"
        using x Cons.prems(2) by (simp_all add: dict_get_def)
      then show ?thesis using one [of a] x by (simp add: all_names_def)
    next
      case False
      then have "dict_get (x # d) b = dict_get d b" and "dict_get (x # d) a = dict_get d a"
        using x na by (simp_all add: dict_get_def)
      then show ?thesis using Cons.IH [OF d Cons.prems(2)] x
        by (simp add: all_names_def subset_mset.add_increasing)
    qed
  qed
qed

lemma nonempty_filter:
  assumes "distinct (map fst d)"
  shows "distinct (map fst (filter (\<lambda>(k, v). v \<noteq> []) d))"
    and "all_names (filter (\<lambda>(k, v). v \<noteq> []) d) = all_names d"
    and "dict_get (filter (\<lambda>(k, v). v \<noteq> []) d) c = dict_get d c"
proof -
  show "distinct (map fst (filter (\<lambda>(k, v). v \<noteq> []) d))"
    using assms by (rule distinct_map_filter)
  show "all_names (filter (\<lambda>(k, v). v \<noteq> []) d) = all_names d"
    by (induction d) (auto simp: all_names_def)
  show "dict_get (filter (\<lambda>(k, v). v \<noteq> []) d) c = dict_get d c"
    using assms
  proof (induction d)
    case Nil
    then show ?case by simp
  next
    case (Cons x d)
    obtain k v where x: "x = (k, v)" by (cases x)
    have nin: "k \<notin> fst ` set (filter (\<lambda>(k, v). v \<noteq> []) d)" using Cons.prems x by auto
    show ?case
    proof (cases "k = c")
      case True
      then show ?thesis using x nin dict_get_absent [of c "filter (\<lambda>(k, v). v \<noteq> []) d"]
        by (auto simp: dict_get_def)
    next
      case False
      then show ?thesis using x Cons by (auto simp: dict_get_def)
    qed
  qed
qed

lemma partition_of_all_names:
  assumes "distinct (map fst d)" and "all_names d = mset keys" and "distinct keys"
  shows "distinct (concat (map snd d))" and "\<forall>k\<in>set keys. \<exists>!c. k \<in> set (dict_get d c)"
proof -
  have m: "mset (concat (map snd d)) = mset keys" using assms(2) by (simp add: all_names_def)
  show "distinct (concat (map snd d))"
    using mset_eq_imp_distinct_iff [OF m] assms(3) by simp
  show "\<forall>k\<in>set keys. \<exists>!c. k \<in> set (dict_get d c)"
  proof
    fix k assume "k \<in> set keys"
    then have "k \<in> set (concat (map snd d))" using mset_eq_setD [OF m] by simp
    then obtain c l where cl: "(c, l) \<in> set d" and kl: "k \<in> set l" by auto
    then have "map_of d c = Some l" using assms(1) by simp
    then have ex: "k \<in> set (dict_get d c)" using kl by (simp add: dict_get_def)
    have uniq: "c' = c" if "k \<in> set (dict_get d c')" for c'
    proof (rule ccontr)
      assume ne: "c' \<noteq> c"
      have a: "0 < count (mset (dict_get d c')) k" using that by (rule count_mset_gt_0)
      have b: "0 < count (mset (dict_get d c)) k" using ex by (rule count_mset_gt_0)
      have "2 \<le> count (mset (dict_get d c') + mset (dict_get d c)) k"
        unfolding count_union using a b by linarith
      also have "\<dots> \<le> count (all_names d) k"
        using two_lists_in_all_names [OF assms(1) ne] by (rule mset_subset_eq_count)
      also have "\<dots> \<le> 1" using assms(2,3) by (simp add: distinct_count_atmost_1)
      finally show False by simp
    qed
    show "\<exists>!c. k \<in> set (dict_get d c)" using ex uniq by blast
  qed
qed

subsection \<open>The assignment loop\<close>

lemma assign_param_keeps:
  assumes "k \<noteq> k'" and "k \<in> set (dict_get result c)"
  shows "k \<in> set (dict_get (assign_param result k' c') c)"
proof -
  have c: "c \<in> fst ` set result" using assms(2) dict_get_absent by fastforce
  show ?thesis
    using assms c
    by (auto simp: assign_param_def Let_def dict_get_dict_set dict_get_absent)
qed

lemma assign_param_default:
  assumes "''Default'' \<in> fst ` set result" and "k \<in> set (dict_get result ''Default'')"
  shows "assign_param result k ''Default'' = result"
  using assms by (simp add: assign_param_def)

lemma assign_param_inv:
  assumes dk: "distinct keys"
    and inv: "cat_inv keys (k # remaining) result"
    and kr: "k \<notin> set remaining"
  shows "cat_inv keys remaining (assign_param result k c)
         \<and> k \<in> set (dict_get (assign_param result k c) c)"
proof (cases "c = ''Default''")
  case True
  have "assign_param result k ''Default'' = result"
    using inv by (intro assign_param_default) (simp_all add: cat_inv_def)
  then show ?thesis using inv True by (simp add: cat_inv_def)
next
  case False
  define r1 where "r1 = (if c \<notin> fst ` set result then dict_set result c [] else result)"
  define r2 where "r2 = dict_set r1 c (dict_get r1 c @ [k])"
  define D where "D = dict_get result ''Default''"
  define r3 where "r3 = dict_set r2 ''Default'' (remove1 k D)"
  have d0: "distinct (map fst result)" and n0: "all_names result = mset keys"
    and def0: "''Default'' \<in> fst ` set result" and kD: "k \<in> set D" and rem: "set remaining \<subseteq> set D"
    using inv by (simp_all add: cat_inv_def D_def)
  have d1: "distinct (map fst r1)" using d0 by (simp add: r1_def distinct_dict_set)
  have n1: "all_names r1 = mset keys"
    using n0 by (simp add: r1_def all_names_dict_set_new)
  have c1: "c \<in> fst ` set r1" by (simp add: r1_def fst_set_dict_set)
  have def1: "''Default'' \<in> fst ` set r1" using def0 by (simp add: r1_def fst_set_dict_set)
  have D1: "dict_get r1 ''Default'' = D"
    using False by (simp add: r1_def D_def dict_get_dict_set)
  have knc: "k \<notin> set (dict_get r1 c)"
  proof
    assume "k \<in> set (dict_get r1 c)"
    then have a: "0 < count (mset (dict_get r1 c)) k" by (rule count_mset_gt_0)
    have "k \<in> set (dict_get r1 ''Default'')" using kD D1 by simp
    then have b: "0 < count (mset (dict_get r1 ''Default'')) k" by (rule count_mset_gt_0)
    have "2 \<le> count (mset (dict_get r1 c) + mset (dict_get r1 ''Default'')) k"
      unfolding count_union using a b by linarith
    also have "\<dots> \<le> count (all_names r1) k"
      using two_lists_in_all_names [OF d1 False] by (rule mset_subset_eq_count)
    also have "\<dots> \<le> 1" using n1 dk by (simp add: distinct_count_atmost_1)
    finally show False by simp
  qed
  have d2: "distinct (map fst r2)" using d1 by (simp add: r2_def distinct_dict_set)
  have "all_names r2 + mset (dict_get r1 c) = all_names r1 + mset (dict_get r1 c @ [k])"
    unfolding r2_def by (rule all_names_dict_set_old [OF d1 c1])
  then have n2: "all_names r2 = mset keys + {#k#}" using n1 by simp
  have def2: "''Default'' \<in> fst ` set r2" using def1 by (simp add: r2_def fst_set_dict_set)
  have D2: "dict_get r2 ''Default'' = D"
    using False D1 by (simp add: r2_def dict_get_dict_set)
  have c2: "dict_get r2 c = dict_get r1 c @ [k]" by (simp add: r2_def dict_get_dict_set)
  have d3: "distinct (map fst r3)" using d2 by (simp add: r3_def distinct_dict_set)
  have "all_names r3 + mset (dict_get r2 ''Default'') = all_names r2 + mset (remove1 k D)"
    unfolding r3_def by (rule all_names_dict_set_old [OF d2 def2])
  then have "all_names r3 + mset D = mset keys + {#k#} + (mset D - {#k#})"
    using n2 D2 by simp
  also have "\<dots> = mset keys + mset D" using kD by simp
  finally have n3: "all_names r3 = mset keys" by simp
  have def3: "''Default'' \<in> fst ` set r3" by (simp add: r3_def fst_set_dict_set)
  have D3: "dict_get r3 ''Default'' = remove1 k D" by (simp add: r3_def dict_get_dict_set)
  have c3: "dict_get r3 c = dict_get r1 c @ [k]"
    using False c2 by (simp add: r3_def dict_get_dict_set)
  have rem3: "set remaining \<subseteq> set (remove1 k D)"
  proof
    fix x assume x: "x \<in> set remaining"
    then have "x \<noteq> k" and "x \<in> set D" using kr rem by auto
    then show "x \<in> set (remove1 k D)" by simp
  qed
  have eq: "assign_param result k c = r3"
    using False knc kD D2
    by (simp add: assign_param_def Let_def r1_def [symmetric] r2_def [symmetric] r3_def)
  show ?thesis
    unfolding eq using d3 n3 def3 D3 rem3 c3 by (simp add: cat_inv_def)
qed

lemma assign_params_inv:
  assumes "distinct keys" and "distinct (map fst items)" and "cat_inv keys (map fst items) result"
  shows "cat_inv keys [] (assign_params cbl items result)
       \<and> (\<forall>(k, pl)\<in>set items. k \<in> set (dict_get (assign_params cbl items result) (closest_category cbl pl)))
       \<and> (\<forall>k c. k \<notin> fst ` set items \<longrightarrow> k \<in> set (dict_get result c)
              \<longrightarrow> k \<in> set (dict_get (assign_params cbl items result) c))"
  using assms(2,3)
proof (induction items arbitrary: result)
  case Nil
  then show ?case by simp
next
  case (Cons x items)
  obtain k pl where x: "x = (k, pl)" by (cases x)
  let ?c = "closest_category cbl pl"
  let ?r = "assign_param result k ?c"
  have kn: "k \<notin> set (map fst items)" and di: "distinct (map fst items)"
    using Cons.prems(1) x by auto
  have inv: "cat_inv keys (k # map fst items) result" using Cons.prems(2) x by simp
  from assign_param_inv [OF assms(1) inv kn, of ?c]
  have inv': "cat_inv keys (map fst items) ?r" and kin: "k \<in> set (dict_get ?r ?c)" by simp_all
  note IH = Cons.IH [OF di inv']
  have step: "assign_params cbl (x # items) result = assign_params cbl items ?r"
    using x by simp
  have keep: "k \<in> set (dict_get (assign_params cbl items ?r) ?c)"
    using IH kin kn by auto
  have others: "\<forall>k' c. k' \<notin> fst ` set (x # items) \<longrightarrow> k' \<in> set (dict_get result c)
              \<longrightarrow> k' \<in> set (dict_get (assign_params cbl items ?r) c)"
  proof (intro allI impI)
    fix k' c assume a: "k' \<notin> fst ` set (x # items)" and b: "k' \<in> set (dict_get result c)"
    then have "k' \<noteq> k" and "k' \<notin> fst ` set items" using x by auto
    with b IH assign_param_keeps [of k' k result c ?c] show "k' \<in> set (dict_get (assign_params cbl items ?r) c)"
      by blast
  qed
  show ?case unfolding step using IH keep others x by auto
qed

subsection \<open>Extracted names, parameter lines and category lines\<close>

lemma extract_items_distinct:
  "distinct (map fst acc) \<Longrightarrow> extract_items items acc = Inr r \<Longrightarrow> distinct (map fst r)"
proof (induction items arbitrary: acc)
  case Nil
  then show ?case by simp
next
  case (Cons x items)
  obtain kn vn where x: "x = (kn, vn)" by (cases x)
  show ?case
  proof (cases kn)
    case (ConstantKey key)
    with Cons.prems(2) x obtain v where v: "extract_value vn = Inr v"
      and r: "extract_items items (dict_set acc key v) = Inr r"
      by (auto split: sum.splits)
    from Cons.IH [OF distinct_dict_set [OF Cons.prems(1)] r] show ?thesis .
  next
    case NoKey
    with Cons.prems x Cons.IH show ?thesis by simp
  next
    case ExprKey
    with Cons.prems x Cons.IH show ?thesis by simp
  qed
qed

lemma find_parameters_distinct:
  "find_parameters nodes = Inr params \<Longrightarrow> distinct (map fst params)"
proof (induction nodes rule: find_parameters.induct)
  case 1
  then show ?case by simp
next
  case (2 targets val lineno nodes)
  show ?case
  proof (cases "list_ex is_PARAMETERS targets")
    case True
    with "2.prems" have e: "extract_dict_value val = Inr params" by simp
    show ?thesis
    proof (cases val)
      case (Dict items)
      with e have "extract_items items [] = Inr params" by (simp add: extract_dict_value_def)
      then show ?thesis using extract_items_distinct [of "[]"] by simp
    qed (use e in \<open>auto simp: extract_dict_value_def\<close>)
  next
    case False
    with 2 show ?thesis by simp
  qed
next
  case (3 children nodes)
  then show ?case by simp
qed

lemma find_parameter_lines_spec:
  assumes "distinct keys" and "set keys \<inter> fst ` set acc = {}" and "distinct (map fst acc)"
  shows "distinct (map fst (find_parameter_lines ls keys start acc))
    \<and> (\<forall>k\<in>set keys. map_of (find_parameter_lines ls keys start acc) k
            = List.find (\<lambda>i. mentions (ls ! i) k) [start..<length ls])
    \<and> (\<forall>k. k \<notin> set keys \<longrightarrow> map_of (find_parameter_lines ls keys start acc) k = map_of acc k)"
  using assms
proof (induction keys arbitrary: acc)
  case Nil
  then show ?case by simp
next
  case (Cons key keys)
  define f where "f = List.find (\<lambda>i. mentions (ls ! i) key) [start..<length ls]"
  define acc' where "acc' = (case f of None \<Rightarrow> acc | Some i \<Rightarrow> dict_set acc key i)"
  have step: "find_parameter_lines ls (key # keys) start acc = find_parameter_lines ls keys start acc'"
    by (simp add: acc'_def f_def split: option.splits)
  have dk: "distinct keys" and kn: "key \<notin> set keys" using Cons.prems(1) by simp_all
  have d0: "set keys \<inter> fst ` set acc = {}" and kacc: "key \<notin> fst ` set acc"
    using Cons.prems(2) by simp_all
  have sub: "fst ` set acc' \<subseteq> insert key (fst ` set acc)"
    by (cases f) (simp_all add: acc'_def fst_set_dict_set subset_insertI)
  have disj: "set keys \<inter> fst ` set acc' = {}" using sub kn d0 by blast
  have dacc: "distinct (map fst acc')"
    using Cons.prems(3) by (cases f) (simp_all add: acc'_def distinct_dict_set)
  have none: "map_of acc key = None" using kacc by (simp add: map_of_eq_None_iff)
  have atkey: "map_of acc' key = f"
    using none by (cases f) (simp_all add: acc'_def map_of_dict_set)
  have other: "k \<noteq> key \<Longrightarrow> map_of acc' k = map_of acc k" for k
    by (cases f) (simp_all add: acc'_def map_of_dict_set)
  note IH = Cons.IH [OF dk disj dacc]
  have c1: "distinct (map fst (find_parameter_lines ls keys start acc'))" using IH by blast
  have c2: "map_of (find_parameter_lines ls keys start acc') k
              = List.find (\<lambda>i. mentions (ls ! i) k) [start..<length ls]"
    if "k \<in> set (key # keys)" for k
  proof (cases "k = key")
    case True
    then have "map_of (find_parameter_lines ls keys start acc') k = map_of acc' key"
      using IH kn by blast
    then show ?thesis using atkey True by (simp add: f_def)
  next
    case False
    then have "k \<in> set keys" using that by simp
    then show ?thesis using IH by blast
  qed
  have c3: "map_of (find_parameter_lines ls keys start acc') k = map_of acc k"
    if "k \<notin> set (key # keys)" for k
  proof -
    have "k \<notin> set keys" and "k \<noteq> key" using that by simp_all
    then show ?thesis using IH other by metis
  qed
  show ?case unfolding step using c1 c2 c3 by blast
qed








lemma get_categories_result:
  assumes "get_categories p = Inr cats"
    and "extract_parameters (tree p) = Inr params"
    and "params \<noteq> []"
    and "find_parameters_line (tree p) = Some start"
  shows "\<exists>result.
           cats = filter (\<lambda>(k, v). v \<noteq> [])
                    (assign_params (extract_category_lines (lines p) start)
                       (find_parameter_lines (lines p) (map fst params) start []) result)
         \<and> cat_inv (map fst params)
              (map fst (find_parameter_lines (lines p) (map fst params) start [])) result
         \<and> dict_get result ''Default'' = map fst params"
proof -
  define keys where "keys = map fst params"
  define cc where "cc = last_header (drop start (lines p)) ''Default''"
  define result where "result = dict_set [(cc, [])] ''Default'' keys"
  define items where "items = find_parameter_lines (lines p) keys start []"
  have dk: "distinct keys"
    using assms(2) find_parameters_distinct by (simp add: keys_def extract_parameters_def)
  have cats: "cats = filter (\<lambda>(k, v). v \<noteq> [])
                    (assign_params (extract_category_lines (lines p) start) items result)"
    using assms by (simp add: get_categories_def Let_def keys_def cc_def result_def items_def)
  have dg: "dict_get result ''Default'' = keys" by (simp add: result_def dict_get_def)
  have e1: "set keys \<inter> fst ` set ([] :: (string \<times> nat) list) = {}" by simp
  have e2: "distinct (map fst ([] :: (string \<times> nat) list))" by simp
  note S = find_parameter_lines_spec [OF dk e1 e2, of "lines p" start, folded items_def]
  have sp: "k \<notin> set keys \<Longrightarrow> map_of items k = None" for k
    using S [THEN conjunct2, THEN conjunct2] by simp
  have sub: "set (map fst items) \<subseteq> set keys"
  proof
    fix k assume "k \<in> set (map fst items)"
    then have "k \<in> fst ` set items" by simp
    then have n: "map_of items k \<noteq> None" unfolding map_of_eq_None_iff by simp
    show "k \<in> set keys"
    proof (rule ccontr)
      assume "k \<notin> set keys"
      then have "map_of items k = None" by (rule sp)
      with n show False by simp
    qed
  qed
  have r: "result = (if cc = ''Default'' then [(''Default'', keys)]
                     else [(cc, []), (''Default'', keys)])"
    by (simp add: result_def)
  have i1: "distinct (map fst result)" by (simp add: r)
  have i2: "all_names result = mset keys" by (simp add: r all_names_def)
  have i3: "''Default'' \<in> fst ` set result" by (simp add: r)
  have i4: "set (map fst items) \<subseteq> set (dict_get result ''Default'')"
    using sub by (simp only: dg)
  have inv: "cat_inv keys (map fst items) result"
    unfolding cat_inv_def using i1 i2 i3 i4 by (intro conjI)
  show ?thesis
    unfolding keys_def [symmetric] items_def [symmetric]
    by (rule exI [of _ result]) (intro conjI cats inv dg)
qed

subsection \<open>The category map\<close>

text \<open>
  Claim C5. A category map returned by \<^verbatim>\<open>get_categories\<close> partitions the extracted
  parameter names: the category names are distinct, the category lists together hold every
  extracted name exactly once and nothing else, and every extracted name is in the list of
  exactly one category.
\<close>

theorem categories_partition:
  assumes "get_categories p = Inr cats"
  shows "\<exists>params. extract_parameters (tree p) = Inr params
           \<and> distinct (map fst cats)
           \<and> mset (concat (map snd cats)) = mset (map fst params)
           \<and> distinct (concat (map snd cats))
           \<and> (\<forall>k\<in>set (map fst params). \<exists>!c. k \<in> set (dict_get cats c))"
proof -
  from assms obtain params where params: "extract_parameters (tree p) = Inr params"
    by (auto simp: get_categories_def split: sum.splits)
  define keys where "keys = map fst params"
  have dk: "distinct keys"
    using params find_parameters_distinct by (simp add: keys_def extract_parameters_def)
  have main: "distinct (map fst cats) \<and> all_names cats = mset keys"
  proof (cases "params = []")
    case True
    then have "cats = []" using assms params by (simp add: get_categories_def)
    then show ?thesis using True by (simp add: keys_def all_names_def)
  next
    case False
    note ne = this
    show ?thesis
    proof (cases "find_parameters_line (tree p)")
      case None
      then have "cats = [(''Default'', keys)]"
        using assms params ne by (simp add: get_categories_def keys_def)
      then show ?thesis by (simp add: all_names_def)
    next
      case (Some start)
      from get_categories_result [OF assms params ne Some] obtain result where
        cats: "cats = filter (\<lambda>(k, v). v \<noteq> [])
                 (assign_params (extract_category_lines (lines p) start)
                    (find_parameter_lines (lines p) keys start []) result)"
        and inv: "cat_inv keys (map fst (find_parameter_lines (lines p) keys start [])) result"
        unfolding keys_def by blast
      have di: "distinct (map fst (find_parameter_lines (lines p) keys start []))"
        using find_parameter_lines_spec [of keys "[]" "lines p" start] dk by simp
      from assign_params_inv [OF dk di inv]
      have "cat_inv keys [] (assign_params (extract_category_lines (lines p) start)
              (find_parameter_lines (lines p) keys start []) result)" by blast
      then show ?thesis
        unfolding cats by (simp add: cat_inv_def nonempty_filter)
    qed
  qed
  then have d: "distinct (map fst cats)" and n: "all_names cats = mset keys" by simp_all
  from partition_of_all_names [OF d n dk] n params d show ?thesis
    unfolding keys_def all_names_def by blast
qed

text \<open>C5 at the example script.\<close>

theorem categories_partition_witness:
  "get_categories example_parser = Inr [(''Physical Parameters'', [''amplitude'', ''show_grid''])]
   \<and> (\<exists>params. extract_parameters (tree example_parser) = Inr params
           \<and> distinct (map fst [(''Physical Parameters'', [''amplitude'', ''show_grid''])])
           \<and> mset (concat (map snd [(''Physical Parameters'', [''amplitude'', ''show_grid''])]))
               = mset (map fst params)
           \<and> distinct (concat (map snd [(''Physical Parameters'', [''amplitude'', ''show_grid''])]))
           \<and> (\<forall>k\<in>set (map fst params).
                 \<exists>!c. k \<in> set (dict_get [(''Physical Parameters'', [''amplitude'', ''show_grid''])] c)))"
proof -
  have h: "get_categories example_parser
             = Inr [(''Physical Parameters'', [''amplitude'', ''show_grid''])]"
    by code_simp
  show ?thesis by (rule conjI [OF h categories_partition [OF h]])
qed




subsection \<open>A script without the declaration\<close>

lemma find_parameters_absent:
  "\<not> list_ex assigns_PARAMETERS nodes \<Longrightarrow> find_parameters nodes = Inr []"
  by (induction nodes rule: find_parameters.induct) simp_all

text \<open>
  Claim C7, as the specification words it, fails: for a syntactically valid script with no
  assignment to \<^verbatim>\<open>PARAMETERS\<close> (here the empty module) \<^verbatim>\<open>extract_parameters\<close> returns the
  empty dictionary, as its docstring says, and reports no failure.
\<close>

theorem extract_parameters_empty_counterexample:
  "\<not> list_ex assigns_PARAMETERS (walk [Node []]) \<and> extract_parameters (Node []) = Inr []"
  by (simp add: extract_parameters_def)

text \<open>
  Claim C7, amended. The constructor of the parser fails when the source text is not
  syntactically valid (the error of \<^verbatim>\<open>ast.parse\<close> leaves it). For a syntactically
  valid source whose tree holds no assignment to the name \<^verbatim>\<open>PARAMETERS\<close>, the parser is
  built and \<^verbatim>\<open>extract_parameters\<close> returns the empty dictionary.
\<close>

theorem extract_parameters_absent:
  "(ast_parse source = Inl e \<longrightarrow> ParameterParser ast_parse source = Inl e)
   \<and> (ast_parse source = Inr t \<and> \<not> list_ex assigns_PARAMETERS (walk [t]) \<longrightarrow>
        (\<exists>p. ParameterParser ast_parse source = Inr p \<and> tree p = t
            \<and> extract_parameters (tree p) = Inr []))"
  by (simp add: ParameterParser_def extract_parameters_def find_parameters_absent)

text \<open>C7 at a script that only assigns \<^verbatim>\<open>x\<close>, and at a text \<^verbatim>\<open>ast.parse\<close> rejects.\<close>

theorem extract_parameters_absent_witness:
  "\<not> list_ex assigns_PARAMETERS (walk [plain_tree])
   \<and> (\<exists>p. ParameterParser (\<lambda>src. Inr plain_tree) ''x = 1'' = Inr p \<and> tree p = plain_tree
          \<and> extract_parameters (tree p) = Inr [])
   \<and> ParameterParser (\<lambda>src. Inl SyntaxError) ''x = '' = Inl SyntaxError"
proof -
  have a: "\<not> list_ex assigns_PARAMETERS (walk [plain_tree])"
    by (simp add: plain_tree_def)
  have b: "\<exists>p. ParameterParser (\<lambda>src. Inr plain_tree) ''x = 1'' = Inr p \<and> tree p = plain_tree
          \<and> extract_parameters (tree p) = Inr []"
    using extract_parameters_absent [of "\<lambda>src. Inr plain_tree" "''x = 1''" SyntaxError plain_tree] a
    by simp
  have c: "ParameterParser (\<lambda>src. Inl SyntaxError) ''x = '' = Inl SyntaxError"
    using extract_parameters_absent [of "\<lambda>src. Inl SyntaxError" "''x = ''" SyntaxError plain_tree]
    by simp
  from a b c show ?thesis by (intro conjI)
qed


section \<open>Properties of the process controller\<close>

text \<open>
  Claim C8, as the specification words it, fails: with the recorded state \<^verbatim>\<open>RUNNING\<close> and a
  process that has already exited, \<^verbatim>\<open>stop()\<close> sets the state to \<^verbatim>\<open>STOPPED\<close> and returns
  \<^verbatim>\<open>False\<close>, without setting the cancellation flag or starting the cleanup thread.
\<close>

theorem stop_exited_counterexample:
  "status exited_runner = RUNNING
   \<and> stop exited_runner
       = (False, exited_runner\<lparr> status := STOPPED, status_queue := [RUNNING, STOPPED] \<rparr>)"
  by (simp add: exited_runner_def stop_def set_status_def)

text \<open>
  Claim C8, amended. \<^verbatim>\<open>stop()\<close> returns \<^verbatim>\<open>False\<close> and changes nothing unless the recorded
  state is \<^verbatim>\<open>RUNNING\<close>. In state \<^verbatim>\<open>RUNNING\<close> with a process that has not exited it sets the
  cancellation flag, records and queues \<^verbatim>\<open>STOPPING\<close>, starts the cleanup thread and returns
  \<^verbatim>\<open>True\<close>. In state \<^verbatim>\<open>RUNNING\<close> with no process, or one that has exited, it records and
  queues \<^verbatim>\<open>STOPPED\<close> and returns \<^verbatim>\<open>False\<close>, and does nothing else.
\<close>

theorem stop_behaviour:
  "(status r \<noteq> RUNNING \<longrightarrow> stop r = (False, r))
   \<and> (status r = RUNNING \<and> process r = Some Alive \<longrightarrow>
        stop r = (True, r\<lparr> stop_event := True, status := STOPPING,
                           status_queue := status_queue r @ [STOPPING],
                           started_threads := started_threads r @ [ManimCleanupThread] \<rparr>))
   \<and> (status r = RUNNING \<and> process r \<noteq> Some Alive \<longrightarrow>
        stop r = (False, r\<lparr> status := STOPPED, status_queue := status_queue r @ [STOPPED] \<rparr>))"
  by (cases "process r") (auto simp: stop_def set_status_def Let_def split: poll.splits)

text \<open>C8 at an idle runner, a running one, and a running one whose process has exited.\<close>

theorem stop_behaviour_witness:
  "stop idle_runner = (False, idle_runner)
   \<and> stop running_runner
       = (True, running_runner\<lparr> stop_event := True, status := STOPPING,
                                status_queue := [RUNNING, STOPPING],
                                started_threads := [ManimCleanupThread] \<rparr>)
   \<and> fst (stop exited_runner) = False \<and> status (snd (stop exited_runner)) = STOPPED"
  using stop_behaviour [of idle_runner] stop_behaviour [of running_runner]
    stop_behaviour [of exited_runner]
  by (simp add: idle_runner_def running_runner_def exited_runner_def)

end
